theory Spec2Isabelle
  imports Main
begin

section \<open>Python values used by mail2mongo\<close>

text \<open>
  A Python \<^verbatim>\<open>str\<close> is a sequence of Unicode code points, so it is modelled as a
  list of code points. Program constants (dictionary keys, header names, log texts)
  are written as HOL string literals and turned into such a list by \<open>lit\<close>.
\<close>

type_synonym pystr = "nat list"

definition lit :: "string \<Rightarrow> pystr" where
  "lit s = map of_char s"

text \<open>The exceptions that the modelled code can raise or let through.\<close>

datatype exn =
    IndexError
  | KeyError
  | PyMongoError pystr
  | OtherError pystr

fun is_PyMongoError :: "exn \<Rightarrow> bool" where
  "is_PyMongoError (PyMongoError m) = True"
| "is_PyMongoError e = False"

text \<open>
  \<^verbatim>\<open>str.isspace\<close> for one code point: the characters that \<^verbatim>\<open>str.strip()\<close>
  without argument removes (tab, line feed, vertical tab, form feed, carriage return,
  the separators 0x1C..0x1F, space, NEL, no-break space and the Unicode spaces).
\<close>

definition isspace :: "nat \<Rightarrow> bool" where
  "isspace c \<longleftrightarrow>
     (9 \<le> c \<and> c \<le> 13) \<or> (28 \<le> c \<and> c \<le> 32) \<or> c = 133 \<or> c = 160 \<or> c = 5760 \<or>
     (8192 \<le> c \<and> c \<le> 8202) \<or> c = 8232 \<or> c = 8233 \<or> c = 8239 \<or> c = 8287 \<or>
     c = 12288"

text \<open>Removing from both ends the characters that satisfy a test.\<close>

definition strip_by :: "(nat \<Rightarrow> bool) \<Rightarrow> pystr \<Rightarrow> pystr" where
  "strip_by P s = rev (dropWhile P (rev (dropWhile P s)))"

text \<open>\<^verbatim>\<open>s.strip()\<close> and \<^verbatim>\<open>s.strip(chars)\<close>.\<close>

definition strip :: "pystr \<Rightarrow> pystr" where
  "strip s = strip_by isspace s"

definition strip_chars :: "pystr \<Rightarrow> pystr \<Rightarrow> pystr" where
  "strip_chars chars s = strip_by (\<lambda>c. c \<in> set chars) s"

text \<open>
  \<^verbatim>\<open>s.split(sep)\<close> for a separator of one character, the only use in the source:
  the pieces between the occurrences of the separator, one more than there are
  occurrences, so never the empty list.
\<close>

fun split :: "nat \<Rightarrow> pystr \<Rightarrow> pystr list" where
  "split sep [] = [[]]"
| "split sep (c # cs) =
     (if c = sep then [] # split sep cs
      else (case split sep cs of
              [] \<Rightarrow> [[c]]
            | p # ps \<Rightarrow> (c # p) # ps))"

text \<open>\<^verbatim>\<open>xs[i]\<close> for a non-negative index: IndexError out of range.\<close>

definition getitem :: "'a list \<Rightarrow> nat \<Rightarrow> exn + 'a" where
  "getitem xs i = (if i < length xs then Inr (xs ! i) else Inl IndexError)"

text \<open>\<^verbatim>\<open>d[k]\<close> and \<^verbatim>\<open>d.get(k, default)\<close> on a dictionary.\<close>

definition lookup :: "('k \<rightharpoonup> 'v) \<Rightarrow> 'k \<Rightarrow> exn + 'v" where
  "lookup d k = (case d k of None \<Rightarrow> Inl KeyError | Some v \<Rightarrow> Inr v)"

definition get_default :: "('k \<rightharpoonup> 'v) \<Rightarrow> 'k \<Rightarrow> 'v \<Rightarrow> 'v" where
  "get_default d k dflt = (case d k of None \<Rightarrow> dflt | Some v \<Rightarrow> v)"

text \<open>\<^verbatim>\<open>str(n)\<close> for an integer: its decimal digits, with a minus sign when negative.\<close>

fun digits :: "nat \<Rightarrow> pystr" where
  "digits n = (if n < 10 then [48 + n] else digits (n div 10) @ [48 + n mod 10])"

definition str_int :: "int \<Rightarrow> pystr" where
  "str_int i = (if i < 0 then 45 # digits (nat (- i)) else digits (nat i))"

section \<open>The relay authorization callback\<close>

text \<open>
  \<^verbatim>\<open>Config\<close> carries the allow-list and the ports; of a request the handler reads
  its headers only. The response is the status with the header dictionary, in the
  order the source writes its keys.
\<close>

record config =
  domains :: "pystr list"
  smtp_port :: int
  api_port :: int

record request =
  headers :: "string \<rightharpoonup> pystr"
  query :: "string \<rightharpoonup> pystr"

record response =
  status :: nat
  resp_headers :: "(string \<times> pystr) list"

definition forbidden :: response where
  "forbidden = \<lparr>status = 200,
     resp_headers = [(''Auth-Status'', lit ''FORBIDDEN''), (''Auth-Wait'', lit ''0'')]\<rparr>"

definition ok_response :: "pystr \<Rightarrow> int \<Rightarrow> response" where
  "ok_response host port = \<lparr>status = 200,
     resp_headers = [(''Auth-Status'', lit ''OK''), (''Auth-Server'', host),
                     (''Auth-Port'', str_int port)]\<rparr>"

text \<open>
  The domain extraction of \<^verbatim>\<open>auth_handler\<close>:
  \<^verbatim>\<open>rcpt.split('<')[1].split('>')[0].split('@')[1]\<close>, each subscript able to raise.
\<close>

definition extract_domain :: "pystr \<Rightarrow> exn + pystr" where
  "extract_domain rcpt =
     (case getitem (split 60 rcpt) 1 of
        Inl e \<Rightarrow> Inl e
      | Inr a \<Rightarrow>
          (case getitem (split 62 a) 0 of
             Inl e \<Rightarrow> Inl e
           | Inr b \<Rightarrow> getitem (split 64 b) 1))"

definition auth_handler :: "config \<Rightarrow> request \<Rightarrow> exn + response" where
  "auth_handler cfg req =
     (case extract_domain (get_default (headers req) ''Auth-SMTP-To'' []) of
        Inl e \<Rightarrow> Inl e
      | Inr rcpt \<Rightarrow>
          (let check_passed = filter (\<lambda>x. x = rcpt) (domains cfg)
           in if check_passed = [] then Inr forbidden
              else (case lookup (headers req) ''Host'' of
                      Inl e \<Rightarrow> Inl e
                    | Inr host \<Rightarrow> Inr (ok_response host (smtp_port cfg)))))"

text \<open>
  The positions in which the extraction expects its two marks: the header has a
  \<open><\<close> (code point 60), and an \<open>@\<close> (64) stands after the first \<open><\<close> and
  before the next \<open><\<close> or \<open>>\<close> (62).
\<close>

definition addr_positions :: "pystr \<Rightarrow> bool" where
  "addr_positions r \<longleftrightarrow>
     60 \<in> set r \<and>
     64 \<in> set (takeWhile (\<lambda>c. c \<noteq> 62)
                (takeWhile (\<lambda>c. c \<noteq> 60) (tl (dropWhile (\<lambda>c. c \<noteq> 60) r))))"

section \<open>The message handler\<close>

text \<open>
  The payload dictionary of \<^verbatim>\<open>handle_message\<close>: four keys set at once and the key
  \<^verbatim>\<open>'text'\<close> set later, so absent (\<open>None\<close>) until then. The timestamp is the clock
  reading, an input of the model.
\<close>

record payload =
  p_from :: pystr
  p_to :: pystr
  p_subject :: pystr
  p_timestamp :: nat
  p_text :: "pystr option"

text \<open>
  A received message: its headers, and a body that is either a string or, for a
  multipart message, the list of its parts. Of a part the handler reads the content
  type and, when that is \<^verbatim>\<open>text/plain\<close>, the payload; the email parser gives a list
  payload only to parts of a \<^verbatim>\<open>multipart\<close> or \<^verbatim>\<open>message\<close> type, so the payload
  that is read is a string.
\<close>

record part =
  content_type :: pystr
  part_payload :: pystr

datatype body = Single pystr | Multipart "part list"

record message =
  msg_headers :: "string \<rightharpoonup> pystr"
  msg_body :: body

text \<open>The JSON events sent on a websocket, the log lines, and the effects in order.\<close>

datatype wsmsg =
    ErrorEvent pystr
  | NewMail payload

datatype logline =
    LogExc exn
  | LogPayload payload
  | LogRetry nat
  | LogNoTextPlain payload message

datatype event =
    Log logline
  | InsertOne payload "exn option"
  | Sleep nat
  | SendJson nat wsmsg "exn option"

text \<open>
  \<open>InsertOne p r\<close> is one call of \<^verbatim>\<open>insert_one\<close> and \<open>SendJson w m r\<close> one call of
  \<^verbatim>\<open>send_json\<close> on the websocket \<open>w\<close>, with \<open>r = None\<close> when the call returned and
  \<open>Some exc\<close> when it raised \<open>exc\<close>.
\<close>

fun is_insert :: "event \<Rightarrow> bool" where
  "is_insert (InsertOne p r) = True"
| "is_insert e = False"

fun is_inserted :: "event \<Rightarrow> bool" where
  "is_inserted (InsertOne p None) = True"
| "is_inserted e = False"

fun is_send :: "event \<Rightarrow> bool" where
  "is_send (SendJson w m r) = True"
| "is_send e = False"

fun sleeps :: "event list \<Rightarrow> nat list" where
  "sleeps [] = []"
| "sleeps (Sleep n # es) = n # sleeps es"
| "sleeps (e # es) = sleeps es"

subsection \<open>process\_payload\<close>

text \<open>
  The store and the websockets are the environment: \<open>mongo k\<close> is what the \<open>k\<close>-th call
  of \<^verbatim>\<open>insert_one\<close> of this unit does, \<open>send w m\<close> what \<^verbatim>\<open>send_json\<close> does. The loop
  \<^verbatim>\<open>while True\<close> may run forever, so it takes fuel, one unit for each iteration; the
  result \<open>None\<close> says that the loop is still running when the fuel is used up, and the
  effects up to there are returned with it. An exception that is not a
  \<^verbatim>\<open>PyMongoError\<close> leaves the loop and the function. The key \<^verbatim>\<open>_id\<close> that the driver
  adds to the inserted dictionary, and the cancellation of the unit from outside, are
  not modelled.
\<close>

definition failed_round :: "payload \<Rightarrow> exn \<Rightarrow> nat \<Rightarrow> event list" where
  "failed_round payload exc sleep_time =
     [InsertOne payload (Some exc), Log (LogExc exc), Log (LogPayload payload),
      Log (LogRetry sleep_time), Sleep sleep_time]"

fun insert_loop ::
  "nat \<Rightarrow> (nat \<Rightarrow> exn option) \<Rightarrow> payload \<Rightarrow> nat \<Rightarrow> nat \<Rightarrow> event list
     \<Rightarrow> (exn + unit) option \<times> event list" where
  "insert_loop 0 mongo payload k sleep_time tr = (None, tr)"
| "insert_loop (Suc fuel) mongo payload k sleep_time tr =
     (case mongo k of
        None \<Rightarrow> (Some (Inr ()), tr @ [InsertOne payload None])
      | Some exc \<Rightarrow>
          if is_PyMongoError exc
          then insert_loop fuel mongo payload (k + 1) (2 * sleep_time)
                 (tr @ failed_round payload exc sleep_time)
          else (Some (Inl exc), tr @ [InsertOne payload (Some exc)]))"

text \<open>A call of \<^verbatim>\<open>insert_one\<close> that raised an error of the store, the one the loop catches.\<close>

definition store_error :: "exn option \<Rightarrow> bool" where
  "store_error r = (case r of None \<Rightarrow> False | Some exc \<Rightarrow> is_PyMongoError exc)"

definition process_payload ::
  "nat \<Rightarrow> (nat \<Rightarrow> exn option) \<Rightarrow> (pystr \<rightharpoonup> nat) \<Rightarrow> (nat \<Rightarrow> wsmsg \<Rightarrow> exn option)
     \<Rightarrow> payload \<Rightarrow> (exn + unit) option \<times> event list" where
  "process_payload fuel mongo ws_conn send payload =
     (case insert_loop fuel mongo payload 0 60 [] of
        (None, tr) \<Rightarrow> (None, tr)
      | (Some (Inl exc), tr) \<Rightarrow> (Some (Inl exc), tr)
      | (Some (Inr u), tr) \<Rightarrow>
          (case ws_conn (p_to payload) of
             None \<Rightarrow> (Some (Inr ()), tr)
           | Some websock \<Rightarrow>
               (case send websock (NewMail payload) of
                  None \<Rightarrow> (Some (Inr ()), tr @ [SendJson websock (NewMail payload) None])
                | Some exc \<Rightarrow>
                    (Some (Inl exc), tr @ [SendJson websock (NewMail payload) (Some exc)]))))"

text \<open>
  Persist before notify, as a property of a trace: each \<^verbatim>\<open>send_json\<close> has a
  successful \<^verbatim>\<open>insert_one\<close> before it.
\<close>

definition notify_after_persist :: "event list \<Rightarrow> bool" where
  "notify_after_persist tr \<longleftrightarrow>
     (\<forall>i < length tr. is_send (tr ! i) \<longrightarrow> (\<exists>j < i. is_inserted (tr ! j)))"

subsection \<open>handle\_message\<close>

text \<open>
  \<^verbatim>\<open>payload['text'].strip().strip('\n').strip('\r').strip()\<close>; line feed is the code
  point 10 and carriage return 13.
\<close>

definition strip_text :: "pystr \<Rightarrow> pystr" where
  "strip_text t = strip (strip_chars [13] (strip_chars [10] (strip t)))"

text \<open>
  The \<^verbatim>\<open>for ... else\<close> over the parts: the payload of the first part whose content
  type is \<^verbatim>\<open>text/plain\<close>, or \<open>None\<close> when the loop ends without \<^verbatim>\<open>break\<close>.
\<close>

fun first_text_plain :: "part list \<Rightarrow> pystr option" where
  "first_text_plain [] = None"
| "first_text_plain (msg # msgs) =
     (if content_type msg = lit ''text/plain'' then Some (part_payload msg)
      else first_text_plain msgs)"

text \<open>
  The handler's state: the list of the spawned units, each the payload that
  \<^verbatim>\<open>process_payload\<close> was started on, and the effects so far.
\<close>

record pipeline =
  app_tasks :: "payload list"
  events :: "event list"

definition ensure_future :: "payload \<Rightarrow> pipeline \<Rightarrow> pipeline" where
  "ensure_future payload s = s\<lparr>app_tasks := app_tasks s @ [payload]\<rparr>"

definition handle_message :: "nat \<Rightarrow> message \<Rightarrow> pipeline \<Rightarrow> pipeline" where
  "handle_message now message s =
     (let payload = \<lparr>p_from = get_default (msg_headers message) ''From'' [],
                     p_to = get_default (msg_headers message) ''To'' [],
                     p_subject = get_default (msg_headers message) ''Subject'' [],
                     p_timestamp = now,
                     p_text = None\<rparr>
      in case msg_body message of
           Multipart parts \<Rightarrow>
             (case first_text_plain parts of
                Some t \<Rightarrow> ensure_future (payload\<lparr>p_text := Some (strip_text t)\<rparr>) s
              | None \<Rightarrow> s\<lparr>events := events s @ [Log (LogNoTextPlain payload message)]\<rparr>)
         | Single t \<Rightarrow> ensure_future (payload\<lparr>p_text := Some (strip_text t)\<rparr>) s)"

text \<open>
  The trimming as the specification words it for the multipart case: spaces (32),
  line feeds and carriage returns removed from both ends, and nothing else.
\<close>

definition spec_trim :: "pystr \<Rightarrow> pystr" where
  "spec_trim t = strip_chars [32, 10, 13] t"

section \<open>The subscription registry\<close>

text \<open>
  A websocket object is what was sent on it and whether it was closed; the websockets
  live in a heap, a list addressed by position, and a new one is allocated at its end.
  \<open>ws_conn\<close> is the dictionary \<^verbatim>\<open>Application._ws_conn\<close> from identity to websocket,
  and \<open>loops\<close> records the handlers that are suspended in their \<^verbatim>\<open>async for\<close>, each
  under its websocket with the identity of its request.
\<close>

record websock =
  outbox :: "wsmsg list"
  closed :: bool

record server =
  ws_conn :: "pystr \<rightharpoonup> nat"
  socks :: "websock list"
  loops :: "nat \<rightharpoonup> pystr"

definition init :: server where
  "init = \<lparr>ws_conn = Map.empty, socks = [], loops = Map.empty\<rparr>"

definition send_json :: "nat \<Rightarrow> wsmsg \<Rightarrow> websock list \<Rightarrow> websock list" where
  "send_json w m ws = ws[w := (ws ! w)\<lparr>outbox := outbox (ws ! w) @ [m]\<rparr>]"

definition close :: "nat \<Rightarrow> websock list \<Rightarrow> websock list" where
  "close w ws = ws[w := (ws ! w)\<lparr>closed := True\<rparr>]"

text \<open>
  \<^verbatim>\<open>websocket_handler\<close> up to its loop (no other handler runs between the test of
  the registry and the assignment, there being no \<^verbatim>\<open>await\<close> between them). The
  sends and the close on the handler's own new websocket are taken to complete.
  The result is the websocket and the new state.
\<close>

definition reject :: "nat \<Rightarrow> pystr \<Rightarrow> server \<Rightarrow> server" where
  "reject w msg s = s\<lparr>socks := close w (send_json w (ErrorEvent msg) (socks s))\<rparr>"

definition websocket_handler :: "request \<Rightarrow> server \<Rightarrow> nat \<times> server" where
  "websocket_handler req s =
     (let websock = length (socks s);
          s1 = s\<lparr>socks := socks s @ [\<lparr>outbox = [], closed = False\<rparr>]\<rparr>
      in case query req ''email'' of
           None \<Rightarrow> (websock, reject websock (lit ''email should be defined'') s1)
         | Some email \<Rightarrow>
             (case ws_conn s1 email of
                Some other \<Rightarrow> (websock, reject websock (lit ''subscriber already exists'') s1)
              | None \<Rightarrow>
                  (websock, s1\<lparr>ws_conn := (ws_conn s1)(email \<mapsto> websock),
                                loops := (loops s1)(websock \<mapsto> email)\<rparr>)))"

text \<open>
  One message received in the loop of the handler of websocket \<open>w\<close>: a CLOSE message
  closes the websocket, any other is ignored.
\<close>

definition ws_receive :: "nat \<Rightarrow> bool \<Rightarrow> server \<Rightarrow> server" where
  "ws_receive w is_close s =
     (case loops s w of
        None \<Rightarrow> s
      | Some email \<Rightarrow> if is_close then s\<lparr>socks := close w (socks s)\<rparr> else s)"

text \<open>
  The \<^verbatim>\<open>finally\<close> of the handler of websocket \<open>w\<close>, run when its loop ends for
  whatever reason: \<^verbatim>\<open>del self._ws_conn[email]\<close>, a KeyError when the key is not there.
\<close>

definition ws_finally :: "nat \<Rightarrow> server \<Rightarrow> exn option \<times> server" where
  "ws_finally w s =
     (case loops s w of
        None \<Rightarrow> (None, s)
      | Some email \<Rightarrow>
          (case ws_conn s email of
             None \<Rightarrow> (Some KeyError, s\<lparr>loops := (loops s)(w := None)\<rparr>)
           | Some x \<Rightarrow>
               (None, s\<lparr>ws_conn := (ws_conn s)(email := None),
                         loops := (loops s)(w := None)\<rparr>)))"

text \<open>The server as a state machine over the requests and the ends of connections.\<close>

datatype action =
    Subscribe request
  | Receive nat bool
  | Leave nat

fun step :: "server \<Rightarrow> action \<Rightarrow> server" where
  "step s (Subscribe req) = snd (websocket_handler req s)"
| "step s (Receive w is_close) = ws_receive w is_close s"
| "step s (Leave w) = snd (ws_finally w s)"

definition run :: "action list \<Rightarrow> server" where
  "run acts = foldl step init acts"

text \<open>
  The registry and the suspended handlers agree: an identity is registered to a
  websocket exactly when the handler of that websocket is in its loop for that
  identity, and such a websocket is an allocated one.
\<close>

definition registry_inv :: "server \<Rightarrow> bool" where
  "registry_inv s \<longleftrightarrow>
     (\<forall>e w. ws_conn s e = Some w \<longleftrightarrow> loops s w = Some e) \<and>
     (\<forall>w e. loops s w = Some e \<longrightarrow> w < length (socks s))"

section \<open>Splitting and the authorization callback\<close>

lemma split_not_Nil: "split sep s \<noteq> []"
  by (induction s) (auto split: list.splits)

lemma split_no_sep: "sep \<notin> set s \<Longrightarrow> split sep s = [s]"
  by (induction s) auto

lemma split_append: "sep \<notin> set a \<Longrightarrow> split sep (a @ sep # b) = a # split sep b"
  by (induction a) auto

lemma hd_split: "hd (split sep s) = takeWhile (\<lambda>c. c \<noteq> sep) s"
  by (induction s) (auto split: list.splits simp: split_not_Nil)

lemma split_decomp:
  "split sep s = takeWhile (\<lambda>c. c \<noteq> sep) s #
     (if sep \<in> set s then split sep (tl (dropWhile (\<lambda>c. c \<noteq> sep) s)) else [])"
  by (induction s) (auto split: list.splits simp: split_not_Nil)

lemma getitem_0_split: "getitem (split sep s) 0 = Inr (takeWhile (\<lambda>c. c \<noteq> sep) s)"
  using split_not_Nil[of sep s] hd_split[of sep s]
  by (cases "split sep s") (auto simp: getitem_def)

lemma getitem_1_split:
  "getitem (split sep s) (Suc 0) =
     (if sep \<in> set s then Inr (takeWhile (\<lambda>c. c \<noteq> sep) (tl (dropWhile (\<lambda>c. c \<noteq> sep) s)))
      else Inl IndexError)"
proof (cases "sep \<in> set s")
  case True
  let ?r = "tl (dropWhile (\<lambda>c. c \<noteq> sep) s)"
  have "split sep s = takeWhile (\<lambda>c. c \<noteq> sep) s # split sep ?r"
    using True split_decomp[of sep s] by simp
  moreover have "split sep ?r \<noteq> []" by (rule split_not_Nil)
  ultimately show ?thesis
    using True hd_split[of sep ?r]
    by (cases "split sep ?r") (auto simp: getitem_def)
next
  case False
  then show ?thesis by (simp add: split_no_sep getitem_def)
qed

lemma extract_domain_eq:
  "extract_domain r =
     (if addr_positions r
      then Inr (takeWhile (\<lambda>c. c \<noteq> 64) (tl (dropWhile (\<lambda>c. c \<noteq> 64)
             (takeWhile (\<lambda>c. c \<noteq> 62) (takeWhile (\<lambda>c. c \<noteq> 60) (tl (dropWhile (\<lambda>c. c \<noteq> 60) r)))))))
      else Inl IndexError)"
  by (simp add: extract_domain_def addr_positions_def getitem_1_split getitem_0_split)

lemma extract_domain_form:
  assumes "60 \<notin> set name"
    and "60 \<notin> set local" "62 \<notin> set local" "64 \<notin> set local"
    and "60 \<notin> set dmn" "62 \<notin> set dmn" "64 \<notin> set dmn"
  shows "extract_domain (name @ 60 # local @ 64 # dmn @ [62]) = Inr dmn"
proof -
  let ?r = "name @ 60 # local @ 64 # dmn @ [62]"
  have 1: "getitem (split 60 ?r) 1 = Inr (local @ 64 # dmn @ [62])"
    using assms by (simp add: split_append split_no_sep getitem_def)
  have 2: "getitem (split 62 (local @ 64 # dmn @ [62])) 0 = Inr (local @ 64 # dmn)"
    using assms split_append[of 62 "local @ 64 # dmn" "[]"] by (simp add: getitem_def)
  have 3: "getitem (split 64 (local @ 64 # dmn)) 1 = Inr dmn"
    using assms by (simp add: split_append split_no_sep getitem_def)
  show ?thesis using 1 2 3 by (simp add: extract_domain_def)
qed

lemma filter_eq_Nil_mem: "filter (\<lambda>x. x = d) xs = [] \<longleftrightarrow> d \<notin> set xs"
  by (induction xs) auto

text \<open>
  Claim C8, as amended. For a request whose \<^verbatim>\<open>Auth-SMTP-To\<close> header is
  \<^verbatim>\<open>Name <local@domain>\<close> (no \<open><\<close> in the name, none of \<open><\<close>, \<open>>\<close>, \<open>@\<close> in the
  local part or in the domain), \<^verbatim>\<open>auth_handler\<close> extracts \<open>domain\<close>: it answers
  FORBIDDEN when the domain is not in the allow-list, and when it is and the request
  carries a \<^verbatim>\<open>Host\<close> header it answers OK with that host as \<^verbatim>\<open>Auth-Server\<close> and the
  configured SMTP port as \<^verbatim>\<open>Auth-Port\<close>. The handler is a function of the
  configuration and the request, and returns nothing but the response.
\<close>

theorem auth_handler_allow_list:
  assumes "headers req ''Auth-SMTP-To'' = Some (name @ 60 # local @ 64 # dmn @ [62])"
    and "60 \<notin> set name"
    and "60 \<notin> set local" "62 \<notin> set local" "64 \<notin> set local"
    and "60 \<notin> set dmn" "62 \<notin> set dmn" "64 \<notin> set dmn"
  shows "(dmn \<notin> set (domains cfg) \<longrightarrow> auth_handler cfg req = Inr forbidden) \<and>
         (dmn \<in> set (domains cfg) \<longrightarrow> headers req ''Host'' = Some host \<longrightarrow>
            auth_handler cfg req = Inr (ok_response host (smtp_port cfg)))"
  using assms extract_domain_form[of name local dmn]
  by (simp add: auth_handler_def get_default_def lookup_def filter_eq_Nil_mem)

text \<open>
  Claim C8 as stated fails on a request of the stated form whose domain is allowed and
  which has no \<^verbatim>\<open>Host\<close> header: \<^verbatim>\<open>request.headers['Host']\<close> raises KeyError, so
  there is no OK response.
\<close>

theorem auth_handler_no_host_counterexample:
  "auth_handler \<lparr>domains = [lit ''x.com''], smtp_port = 8025, api_port = 8080\<rparr>
     \<lparr>headers = [''Auth-SMTP-To'' \<mapsto> lit ''Name <u@x.com>''], query = Map.empty\<rparr>
   = Inl KeyError"
  by (simp add: auth_handler_def get_default_def lookup_def extract_domain_def getitem_def lit_def)

text \<open>
  Claim C10. \<^verbatim>\<open>auth_handler\<close> raises IndexError exactly when the recipient header,
  the empty string when the header is absent, does not have a \<open><\<close> and an \<open>@\<close> in the
  expected positions; so for such a request it does not answer FORBIDDEN, and the
  handler is not total.
\<close>

theorem auth_handler_IndexError:
  "auth_handler cfg req = Inl IndexError \<longleftrightarrow>
     \<not> addr_positions (get_default (headers req) ''Auth-SMTP-To'' [])"
proof (cases "addr_positions (get_default (headers req) ''Auth-SMTP-To'' [])")
  case True
  then obtain d where d: "extract_domain (get_default (headers req) ''Auth-SMTP-To'' []) = Inr d"
    by (simp add: extract_domain_eq)
  have "auth_handler cfg req \<noteq> Inl IndexError"
  proof (cases "headers req ''Host''")
    case None
    then show ?thesis by (simp add: auth_handler_def d lookup_def Let_def)
  next
    case (Some host)
    then show ?thesis by (simp add: auth_handler_def d lookup_def Let_def)
  qed
  with True show ?thesis by simp
next
  case False
  then have "extract_domain (get_default (headers req) ''Auth-SMTP-To'' []) = Inl IndexError"
    by (simp add: extract_domain_eq)
  then have "auth_handler cfg req = Inl IndexError"
    by (simp add: auth_handler_def)
  with False show ?thesis by simp
qed

text \<open>
  The request without any header raises IndexError.
\<close>

theorem auth_handler_IndexError_witness:
  "auth_handler \<lparr>domains = [lit ''x.com''], smtp_port = 8025, api_port = 8080\<rparr>
     \<lparr>headers = Map.empty, query = Map.empty\<rparr> = Inl IndexError"
  using auth_handler_IndexError[of "\<lparr>domains = [lit ''x.com''], smtp_port = 8025, api_port = 8080\<rparr>"
      "\<lparr>headers = Map.empty, query = Map.empty\<rparr>"]
  by (simp add: get_default_def addr_positions_def)

text \<open>
  The header \<^verbatim>\<open>Name <u@x.com>\<close> with the allow-list \<^verbatim>\<open>["x.com"]\<close> and a host.
\<close>

theorem auth_handler_allow_list_witness:
  "auth_handler \<lparr>domains = [lit ''x.com''], smtp_port = 8025, api_port = 8080\<rparr>
     \<lparr>headers = [''Auth-SMTP-To'' \<mapsto> lit ''Name <u@x.com>'', ''Host'' \<mapsto> lit ''mx:8080''], query = Map.empty\<rparr>
   = Inr (ok_response (lit ''mx:8080'') 8025)"
  using auth_handler_allow_list[of "\<lparr>headers = [''Auth-SMTP-To'' \<mapsto> lit ''Name <u@x.com>'', ''Host'' \<mapsto> lit ''mx:8080''], query = Map.empty\<rparr>"
     "lit ''Name ''" "lit ''u''" "lit ''x.com''" "\<lparr>domains = [lit ''x.com''], smtp_port = 8025, api_port = 8080\<rparr>" "lit ''mx:8080''"]
  by (simp add: lit_def)

section \<open>Trimming and the message handler\<close>

lemma last_dropWhile: "dropWhile P xs \<noteq> [] \<Longrightarrow> last (dropWhile P xs) = last xs"
  by (induction xs) (auto split: if_splits)

lemma strip_by_ends:
  assumes "strip_by P s \<noteq> []"
  shows "\<not> P (hd (strip_by P s)) \<and> \<not> P (last (strip_by P s))"
proof -
  let ?d = "dropWhile P s"
  let ?r = "dropWhile P (rev ?d)"
  from assms have r: "?r \<noteq> []" by (simp add: strip_by_def)
  have d: "?d \<noteq> []"
  proof
    assume "?d = []"
    then have "?r = []" by (simp only: rev.simps dropWhile.simps)
    with r show False by contradiction
  qed
  have "\<not> P (hd ?r)" using r by (rule hd_dropWhile)
  moreover have "last ?r = hd ?d"
    using r d by (simp add: last_dropWhile last_rev)
  moreover have "\<not> P (hd ?d)" using d by (rule hd_dropWhile)
  ultimately show ?thesis using r by (simp add: strip_by_def hd_rev last_rev)
qed

lemma strip_by_id:
  assumes "s = [] \<or> (\<not> Q (hd s) \<and> \<not> Q (last s))"
  shows "strip_by Q s = s"
proof (cases s)
  case Nil
  then show ?thesis by (simp add: strip_by_def)
next
  case (Cons a as)
  with assms have h: "\<not> Q a" and l: "\<not> Q (last s)" by auto
  have 1: "dropWhile Q s = s" using Cons h by simp
  obtain x xs where x: "rev s = x # xs" using Cons by (cases "rev s") auto
  then have "x = last s" using Cons hd_rev[of s] by simp
  with l have "\<not> Q x" by simp
  then have 2: "dropWhile Q (rev s) = rev s" unfolding x by simp
  show ?thesis by (simp add: strip_by_def 1 2)
qed

lemma strip_by_weaker:
  assumes "\<And>c. Q c \<Longrightarrow> P c"
  shows "strip_by Q (strip_by P s) = strip_by P s"
proof (rule strip_by_id)
  show "strip_by P s = [] \<or> (\<not> Q (hd (strip_by P s)) \<and> \<not> Q (last (strip_by P s)))"
    using strip_by_ends[of P s] assms by blast
qed

lemma strip_text_eq: "strip_text t = strip t"
proof -
  have 1: "strip_chars [10] (strip t) = strip t"
    unfolding strip_chars_def strip_def by (rule strip_by_weaker) (simp add: isspace_def)
  have 2: "strip_chars [13] (strip t) = strip t"
    unfolding strip_chars_def strip_def by (rule strip_by_weaker) (simp add: isspace_def)
  have 3: "strip (strip t) = strip t"
    unfolding strip_def by (rule strip_by_weaker)
  show ?thesis by (simp add: strip_text_def 1 2 3)
qed

lemma strip_by_cong:
  assumes "\<And>c. c \<in> set s \<Longrightarrow> P c = Q c"
  shows "strip_by P s = strip_by Q s"
proof -
  have 1: "dropWhile P s = dropWhile Q s"
    using assms by (intro dropWhile_cong) auto
  have "set (rev (dropWhile Q s)) \<subseteq> set s"
    using set_dropWhileD by fastforce
  then have 2: "dropWhile P (rev (dropWhile Q s)) = dropWhile Q (rev (dropWhile Q s))"
    using assms by (intro dropWhile_cong) auto
  show ?thesis by (simp add: strip_by_def 1 2)
qed

lemma strip_eq_spec_trim:
  assumes "\<And>c. c \<in> set t \<Longrightarrow> isspace c \<Longrightarrow> c = 32 \<or> c = 10 \<or> c = 13"
  shows "strip t = spec_trim t"
  unfolding strip_def spec_trim_def strip_chars_def
  using assms by (intro strip_by_cong) (auto simp: isspace_def)

lemma first_text_plain_append:
  assumes "\<forall>q \<in> set pre. content_type q \<noteq> lit ''text/plain''"
  shows "first_text_plain (pre @ ps) = first_text_plain ps"
  using assms by (induction pre) auto

lemma first_text_plain_None:
  "first_text_plain ps = None \<longleftrightarrow> (\<forall>q \<in> set ps. content_type q \<noteq> lit ''text/plain'')"
  by (induction ps) auto

text \<open>
  Claim C3, as amended. For a multipart message with a part of content type exactly
  \<^verbatim>\<open>text/plain\<close>, \<^verbatim>\<open>handle_message\<close> spawns one unit on a record whose text is the
  payload of the first such part in part order with all leading and trailing
  whitespace removed, whitespace being what \<^verbatim>\<open>str.strip()\<close> removes: space, line
  feed and carriage return, and also tab, vertical tab, form feed and the other
  characters of \<open>isspace\<close>. The four calls of \<^verbatim>\<open>strip\<close> in the source amount to the
  first one (\<open>strip_text_eq\<close>), and where the payload has no whitespace other than
  space, line feed and carriage return the result is the one the specification
  words (\<open>strip_eq_spec_trim\<close>).
\<close>

theorem handle_message_multipart:
  assumes "msg_body m = Multipart (pre @ p # post)"
    and "\<forall>q \<in> set pre. content_type q \<noteq> lit ''text/plain''"
    and "content_type p = lit ''text/plain''"
  shows "handle_message now m s =
           s\<lparr>app_tasks := app_tasks s @
               [\<lparr>p_from = get_default (msg_headers m) ''From'' [],
                 p_to = get_default (msg_headers m) ''To'' [],
                 p_subject = get_default (msg_headers m) ''Subject'' [],
                 p_timestamp = now,
                 p_text = Some (strip (part_payload p))\<rparr>]\<rparr>"
  using assms
  by (simp add: handle_message_def first_text_plain_append strip_text_eq ensure_future_def)

text \<open>
  A message with an HTML part and then a plain part \<^verbatim>\<open>" hi "\<close>.
\<close>

theorem handle_message_multipart_witness:
  "handle_message 7
     \<lparr>msg_headers = [''To'' \<mapsto> lit ''a@x.com''],
      msg_body = Multipart [\<lparr>content_type = lit ''text/html'', part_payload = lit ''<p>hi</p>''\<rparr>,
                            \<lparr>content_type = lit ''text/plain'', part_payload = lit '' hi ''\<rparr>]\<rparr>
     \<lparr>app_tasks = [], events = []\<rparr> =
   \<lparr>app_tasks = [\<lparr>p_from = [], p_to = lit ''a@x.com'', p_subject = [], p_timestamp = 7,
                   p_text = Some (lit ''hi'')\<rparr>],
    events = []\<rparr>"
  using handle_message_multipart[of
      "\<lparr>msg_headers = [''To'' \<mapsto> lit ''a@x.com''],
      msg_body = Multipart [\<lparr>content_type = lit ''text/html'', part_payload = lit ''<p>hi</p>''\<rparr>,
                            \<lparr>content_type = lit ''text/plain'', part_payload = lit '' hi ''\<rparr>]\<rparr>"
      "[\<lparr>content_type = lit ''text/html'', part_payload = lit ''<p>hi</p>''\<rparr>]"
      "\<lparr>content_type = lit ''text/plain'', part_payload = lit '' hi ''\<rparr>" "[]" 7
      "\<lparr>app_tasks = [], events = []\<rparr>"]
  by (simp add: lit_def get_default_def strip_def strip_by_def isspace_def)

text \<open>
  Claim C3 as stated fails on a plain part that starts with a tab (code point 9):
  the source removes the tab, and removing only spaces, line feeds and carriage
  returns keeps it.
\<close>

theorem handle_message_tab_counterexample:
  "app_tasks (handle_message 0
     \<lparr>msg_headers = Map.empty,
      msg_body = Multipart [\<lparr>content_type = lit ''text/plain'', part_payload = [9, 120]\<rparr>]\<rparr>
     \<lparr>app_tasks = [], events = []\<rparr>) =
   [\<lparr>p_from = [], p_to = [], p_subject = [], p_timestamp = 0, p_text = Some [120]\<rparr>]
   \<and> spec_trim [9, 120] = [9, 120]"
  by (simp add: handle_message_def ensure_future_def get_default_def strip_text_def strip_def
      strip_chars_def strip_by_def isspace_def spec_trim_def)

text \<open>
  Claim C4. A multipart message none of whose parts has the content type
  \<^verbatim>\<open>text/plain\<close> is dropped: the list of spawned units is as before, so no record is
  produced and no unit runs an insert or a notification for it, and the only effect
  is one log line, the diagnostic with the partial record and the message.
\<close>

theorem handle_message_no_text_plain:
  assumes "msg_body m = Multipart parts"
    and "\<forall>q \<in> set parts. content_type q \<noteq> lit ''text/plain''"
  shows "handle_message now m s =
           s\<lparr>events := events s @
               [Log (LogNoTextPlain
                  \<lparr>p_from = get_default (msg_headers m) ''From'' [],
                   p_to = get_default (msg_headers m) ''To'' [],
                   p_subject = get_default (msg_headers m) ''Subject'' [],
                   p_timestamp = now,
                   p_text = None\<rparr> m)]\<rparr>"
  using assms first_text_plain_None[of parts]
  by (simp add: handle_message_def)

text \<open>
  Claim C5. For a message that is not multipart, \<^verbatim>\<open>handle_message\<close> spawns one unit on
  a record whose text is the body with the leading and trailing whitespace removed,
  and whose \<^verbatim>\<open>from\<close>, \<^verbatim>\<open>to\<close> and \<^verbatim>\<open>subject\<close> are the values of the headers as they
  are, the empty string for a header that is absent.
\<close>

theorem handle_message_single:
  assumes "msg_body m = Single b"
  shows "handle_message now m s =
           s\<lparr>app_tasks := app_tasks s @
               [\<lparr>p_from = (case msg_headers m ''From'' of None \<Rightarrow> [] | Some v \<Rightarrow> v),
                 p_to = (case msg_headers m ''To'' of None \<Rightarrow> [] | Some v \<Rightarrow> v),
                 p_subject = (case msg_headers m ''Subject'' of None \<Rightarrow> [] | Some v \<Rightarrow> v),
                 p_timestamp = now,
                 p_text = Some (strip b)\<rparr>]\<rparr>"
  using assms
  by (simp add: handle_message_def strip_text_eq ensure_future_def get_default_def)

text \<open>
  A message whose only part is HTML.
\<close>

theorem handle_message_no_text_plain_witness:
  "handle_message 7
     \<lparr>msg_headers = [''To'' \<mapsto> lit ''a@x.com''],
      msg_body = Multipart [\<lparr>content_type = lit ''text/html'', part_payload = lit ''<p>hi</p>''\<rparr>]\<rparr>
     \<lparr>app_tasks = [], events = []\<rparr> =
   \<lparr>app_tasks = [],
    events = [Log (LogNoTextPlain
       \<lparr>p_from = [], p_to = lit ''a@x.com'', p_subject = [], p_timestamp = 7, p_text = None\<rparr>
       \<lparr>msg_headers = [''To'' \<mapsto> lit ''a@x.com''],
        msg_body = Multipart [\<lparr>content_type = lit ''text/html'', part_payload = lit ''<p>hi</p>''\<rparr>]\<rparr>)]\<rparr>"
  using handle_message_no_text_plain[of
      "\<lparr>msg_headers = [''To'' \<mapsto> lit ''a@x.com''],
      msg_body = Multipart [\<lparr>content_type = lit ''text/html'', part_payload = lit ''<p>hi</p>''\<rparr>]\<rparr>"
      "[\<lparr>content_type = lit ''text/html'', part_payload = lit ''<p>hi</p>''\<rparr>]" 7
      "\<lparr>app_tasks = [], events = []\<rparr>"]
  by (simp add: lit_def get_default_def)

text \<open>
  The body \<^verbatim>\<open>" hi\r\n"\<close> with a \<^verbatim>\<open>From\<close> header only.
\<close>

theorem handle_message_single_witness:
  "handle_message 7
     \<lparr>msg_headers = [''From'' \<mapsto> lit ''u@dom''], msg_body = Single [32, 104, 105, 13, 10]\<rparr>
     \<lparr>app_tasks = [], events = []\<rparr> =
   \<lparr>app_tasks = [\<lparr>p_from = lit ''u@dom'', p_to = [], p_subject = [], p_timestamp = 7,
                   p_text = Some [104, 105]\<rparr>],
    events = []\<rparr>"
  using handle_message_single[of
      "\<lparr>msg_headers = [''From'' \<mapsto> lit ''u@dom''], msg_body = Single [32, 104, 105, 13, 10]\<rparr>"
      "[32, 104, 105, 13, 10]" 7 "\<lparr>app_tasks = [], events = []\<rparr>"]
  by (simp add: strip_def strip_by_def isspace_def)

section \<open>The retry loop\<close>

lemma insert_loop_fails_then_ok:
  assumes "\<forall>j < N. store_error (mongo (k + j))"
    and "mongo (k + N) = None"
    and "N < fuel"
  shows "insert_loop fuel mongo p k st tr =
           (Some (Inr ()),
            tr @ concat (map (\<lambda>j. failed_round p (the (mongo (k + j))) (st * 2 ^ j)) [0..<N])
               @ [InsertOne p None])"
  using assms
proof (induction N arbitrary: fuel k st tr)
  case 0
  then obtain f where "fuel = Suc f" by (cases fuel) auto
  with 0 show ?case by simp
next
  case (Suc N)
  from Suc.prems(3) obtain f where f: "fuel = Suc f" "N < f" by (cases fuel) auto
  from Suc.prems(1) have "store_error (mongo (k + 0))" by blast
  then obtain exc where exc: "mongo k = Some exc" "is_PyMongoError exc"
    by (auto simp: store_error_def split: option.splits)
  have a: "\<forall>j < N. store_error (mongo (k + 1 + j))"
    using Suc.prems(1) by auto
  have b: "mongo (k + 1 + N) = None" using Suc.prems(2) by simp
  have 1: "insert_loop fuel mongo p k st tr =
          insert_loop f mongo p (k + 1) (2 * st) (tr @ failed_round p exc st)"
    using f exc by simp
  have 2: "insert_loop f mongo p (k + 1) (2 * st) (tr @ failed_round p exc st) =
      (Some (Inr ()),
       (tr @ failed_round p exc st) @
       concat (map (\<lambda>j. failed_round p (the (mongo (k + 1 + j))) (2 * st * 2 ^ j)) [0..<N])
         @ [InsertOne p None])"
    using Suc.IH[OF a b f(2)] .
  have 3: "[0..<Suc N] = 0 # map Suc [0..<N]"
    by (simp add: upt_conv_Cons map_Suc_upt del: upt_Suc)
  have 4: "concat (map (\<lambda>j. failed_round p (the (mongo (k + j))) (st * 2 ^ j)) [0..<Suc N]) =
      failed_round p exc st @
      concat (map (\<lambda>j. failed_round p (the (mongo (k + 1 + j))) (2 * st * 2 ^ j)) [0..<N])"
    unfolding 3 using exc by (simp add: comp_def ac_simps)
  show ?case unfolding 1 2 4 by simp
qed

lemma insert_loop_short:
  assumes "\<forall>j < fuel. store_error (mongo (k + j))"
  shows "fst (insert_loop fuel mongo p k st tr) = None"
  using assms
proof (induction fuel arbitrary: k st tr)
  case 0
  then show ?case by simp
next
  case (Suc fuel)
  from Suc.prems have "store_error (mongo (k + 0))" by blast
  then obtain exc where exc: "mongo k = Some exc" "is_PyMongoError exc"
    by (auto simp: store_error_def split: option.splits)
  have "\<forall>j < fuel. store_error (mongo (k + 1 + j))" using Suc.prems by auto
  from Suc.IH[OF this] show ?case using exc by simp
qed

lemma sleeps_append: "sleeps (xs @ ys) = sleeps xs @ sleeps ys"
  by (induction xs rule: sleeps.induct) auto

lemma sleeps_rounds:
  "sleeps (concat (map (\<lambda>j. failed_round p (e j) (g j)) js)) = map g js"
  by (induction js) (auto simp: failed_round_def sleeps_append)

lemma inserts_rounds:
  "length (filter is_insert (concat (map (\<lambda>j. failed_round p (e j) (g j)) js))) = length js"
  by (induction js) (auto simp: failed_round_def)

text \<open>
  Claim C1. When the store raises a store error on the first \<open>N\<close> calls of
  \<^verbatim>\<open>insert_one\<close> and accepts the next one, the loop of \<^verbatim>\<open>process_payload\<close> returns
  with success once it is given more than \<open>N\<close> iterations: its effects are \<open>N\<close> rounds of
  a failed insert, the three log lines and a sleep of \<open>60 * 2 ^ k\<close> seconds in round
  \<open>k\<close>, and then the insert that succeeds; so \<open>N + 1\<close> inserts are attempted and the
  sleeps are 60, 120, 240, ..., without a cap on \<open>N\<close> or on the sleep. Whatever the
  number of iterations, the loop never returns a failure: it is still running for up
  to \<open>N\<close> iterations and has returned with success for more.
\<close>

theorem insert_loop_backoff:
  assumes "\<forall>k < N. store_error (mongo k)"
    and "mongo N = None"
    and "N < fuel"
  shows "insert_loop fuel mongo p 0 60 [] =
           (Some (Inr ()),
            concat (map (\<lambda>k. failed_round p (the (mongo k)) (60 * 2 ^ k)) [0..<N])
              @ [InsertOne p None])
         \<and> length (filter is_insert (snd (insert_loop fuel mongo p 0 60 []))) = N + 1
         \<and> sleeps (snd (insert_loop fuel mongo p 0 60 [])) = map (\<lambda>k. 60 * 2 ^ k) [0..<N]
         \<and> (\<forall>f. fst (insert_loop f mongo p 0 60 []) = (if N < f then Some (Inr ()) else None))"
proof -
  let ?tr = "concat (map (\<lambda>k. failed_round p (the (mongo k)) (60 * 2 ^ k)) [0..<N])
               @ [InsertOne p None]"
  have 1: "insert_loop f mongo p 0 60 [] = (Some (Inr ()), ?tr)" if "N < f" for f
    using insert_loop_fails_then_ok[of N mongo 0 f p 60 "[]"] assms(1,2) that by simp
  have 2: "fst (insert_loop f mongo p 0 60 []) = None" if "\<not> N < f" for f
    using insert_loop_short[of f mongo 0 p 60 "[]"] assms(1) that by simp
  have 3: "length (filter is_insert ?tr) = N + 1"
    by (simp add: inserts_rounds)
  have 4: "sleeps ?tr = map (\<lambda>k. 60 * 2 ^ k) [0..<N]"
    by (simp add: sleeps_append sleeps_rounds)
  have 5: "\<forall>f. fst (insert_loop f mongo p 0 60 []) = (if N < f then Some (Inr ()) else None)"
    using 1 2 by simp
  show ?thesis
    unfolding 1[OF assms(3)] using 3 4 5 by simp
qed

text \<open>
  A store that fails twice: three inserts, sleeps of 60 and 120 seconds, success.
\<close>

theorem insert_loop_backoff_witness:
  "sleeps (snd (insert_loop 3
      (\<lambda>k. if k < 2 then Some (PyMongoError []) else None)
      \<lparr>p_from = [], p_to = [97], p_subject = [], p_timestamp = 0, p_text = Some []\<rparr>
      0 60 [])) = [60, 120]
   \<and> length (filter is_insert (snd (insert_loop 3
      (\<lambda>k. if k < 2 then Some (PyMongoError []) else None)
      \<lparr>p_from = [], p_to = [97], p_subject = [], p_timestamp = 0, p_text = Some []\<rparr>
      0 60 []))) = 3
   \<and> fst (insert_loop 3
      (\<lambda>k. if k < 2 then Some (PyMongoError []) else None)
      \<lparr>p_from = [], p_to = [97], p_subject = [], p_timestamp = 0, p_text = Some []\<rparr>
      0 60 []) = Some (Inr ())"
proof -
  let ?mongo = "\<lambda>k::nat. if k < 2 then Some (PyMongoError []) else None"
  have h1: "\<forall>k < 2. store_error (?mongo k)" by (simp add: store_error_def)
  have h2: "?mongo 2 = None" by simp
  have h3: "(2::nat) < 3" by simp
  have u: "map (\<lambda>k. 60 * 2 ^ k) [0..<2] = [60, 120::nat]" by (simp add: upt_rec)
  let ?p = "\<lparr>p_from = [], p_to = [97], p_subject = [], p_timestamp = 0, p_text = Some []\<rparr>"
  note t = insert_loop_backoff[OF h1 h2 h3, of ?p]
  from t have "fst (insert_loop 3 ?mongo ?p 0 60 []) = Some (Inr ())"
    by (simp only: fst_conv)
  moreover from t have "length (filter is_insert (snd (insert_loop 3 ?mongo ?p 0 60 []))) = 2 + 1"
    by (elim conjE)
  moreover from t have "sleeps (snd (insert_loop 3 ?mongo ?p 0 60 [])) = map (\<lambda>k. 60 * 2 ^ k) [0..<2]"
    by (elim conjE)
  ultimately show ?thesis by (simp only: u) simp
qed

section \<open>Persisting and notifying\<close>

lemma insert_loop_no_send:
  "\<forall>e \<in> set tr. \<not> is_send e \<Longrightarrow>
   \<forall>e \<in> set (snd (insert_loop fuel mongo p k st tr)). \<not> is_send e"
proof (induction fuel arbitrary: k st tr)
  case 0
  then show ?case by simp
next
  case (Suc fuel)
  show ?case
  proof (cases "mongo k")
    case None
    with Suc.prems show ?thesis by simp
  next
    case (Some exc)
    show ?thesis
    proof (cases "is_PyMongoError exc")
      case True
      have "\<forall>e \<in> set (tr @ failed_round p exc st). \<not> is_send e"
        using Suc.prems by (simp add: failed_round_def)
      from Suc.IH[OF this] show ?thesis using Some True by simp
    next
      case False
      with Some Suc.prems show ?thesis by simp
    qed
  qed
qed

lemma insert_loop_success_last:
  "fst (insert_loop fuel mongo p k st tr) = Some (Inr u) \<Longrightarrow>
   \<exists>tr'. snd (insert_loop fuel mongo p k st tr) = tr' @ [InsertOne p None]"
proof (induction fuel arbitrary: k st tr)
  case 0
  then show ?case by simp
next
  case (Suc fuel)
  show ?case
  proof (cases "mongo k")
    case None
    then show ?thesis by simp
  next
    case (Some exc)
    show ?thesis
    proof (cases "is_PyMongoError exc")
      case True
      with Some Suc.prems
      have "fst (insert_loop fuel mongo p (k + 1) (2 * st) (tr @ failed_round p exc st)) = Some (Inr u)"
        by simp
      from Suc.IH[OF this] show ?thesis using Some True by simp
    next
      case False
      with Some Suc.prems show ?thesis by simp
    qed
  qed
qed

lemma notify_after_persist_no_send:
  "\<forall>e \<in> set tr. \<not> is_send e \<Longrightarrow> notify_after_persist tr"
  by (simp add: notify_after_persist_def)

lemma notify_after_persist_snoc:
  assumes "\<forall>e \<in> set tr. \<not> is_send e" and "\<exists>e \<in> set tr. is_inserted e"
  shows "notify_after_persist (tr @ [x])"
  unfolding notify_after_persist_def
proof (intro allI impI)
  fix i assume i: "i < length (tr @ [x])" and s: "is_send ((tr @ [x]) ! i)"
  have "i = length tr"
  proof (rule ccontr)
    assume "i \<noteq> length tr"
    with i have "i < length tr" by simp
    then have "(tr @ [x]) ! i \<in> set tr" by (simp add: nth_append)
    with assms(1) s show False by blast
  qed
  moreover from assms(2) obtain j where "j < length tr" "is_inserted (tr ! j)"
    by (auto simp: in_set_conv_nth)
  ultimately show "\<exists>j<i. is_inserted ((tr @ [x]) ! j)"
    by (auto simp: nth_append)
qed

lemma notify_after_persist_inserted:
  assumes "notify_after_persist tr" and "\<exists>e \<in> set tr. is_send e"
  shows "\<exists>e \<in> set tr. is_inserted e"
proof -
  from assms(2) obtain i where "i < length tr" "is_send (tr ! i)"
    by (auto simp: in_set_conv_nth)
  with assms(1) obtain j where "j < i" "is_inserted (tr ! j)"
    by (auto simp: notify_after_persist_def)
  with \<open>i < length tr\<close> show ?thesis
    by (metis nth_mem order.strict_trans)
qed

lemma process_payload_cases:
  "process_payload fuel mongo conns send p =
     (let r = insert_loop fuel mongo p 0 60 [] in
      if fst r = Some (Inr ()) then
        (case conns (p_to p) of
           None \<Rightarrow> (Some (Inr ()), snd r)
         | Some w \<Rightarrow> (case send w (NewMail p) of
              None \<Rightarrow> (Some (Inr ()), snd r @ [SendJson w (NewMail p) None])
            | Some exc \<Rightarrow> (Some (Inl exc), snd r @ [SendJson w (NewMail p) (Some exc)])))
      else r)"
  by (auto simp: process_payload_def Let_def split: prod.splits option.splits sum.splits)

text \<open>
  Claim C9. In the effects of a unit, however far it has run and whatever the store,
  the registry and the websockets do, each \<^verbatim>\<open>send_json\<close> has a successful
  \<^verbatim>\<open>insert_one\<close> before it; so a unit whose record was not inserted, because the loop
  is still retrying or because it ended with an error, has sent no notification.
\<close>

theorem persist_precedes_notify:
  "notify_after_persist (snd (process_payload fuel mongo conns send p)) \<and>
   ((\<exists>e \<in> set (snd (process_payload fuel mongo conns send p)). is_send e) \<longrightarrow>
    (\<exists>e \<in> set (snd (process_payload fuel mongo conns send p)). is_inserted e))"
proof -
  let ?r = "insert_loop fuel mongo p 0 60 []"
  have ns: "\<forall>e \<in> set (snd ?r). \<not> is_send e"
    using insert_loop_no_send[of "[]" fuel mongo p 0 60] by simp
  have 1: "notify_after_persist (snd (process_payload fuel mongo conns send p))"
  proof (cases "fst ?r = Some (Inr ())")
    case True
    then obtain tr' where "snd ?r = tr' @ [InsertOne p None]"
      using insert_loop_success_last by blast
    then have ins: "\<exists>e \<in> set (snd ?r). is_inserted e" by simp
    show ?thesis
      using True ns ins notify_after_persist_no_send[OF ns] notify_after_persist_snoc[OF ns ins]
      by (simp add: process_payload_cases Let_def split: option.splits)
  next
    case False
    then show ?thesis
      using notify_after_persist_no_send[OF ns] by (simp add: process_payload_cases Let_def)
  qed
  with notify_after_persist_inserted show ?thesis by blast
qed

text \<open>
  Claim C2, as amended. When the insert has succeeded and the websocket registered
  under the \<^verbatim>\<open>to\<close> of the record raises on \<^verbatim>\<open>send_json\<close>, the exception is not caught:
  \<^verbatim>\<open>process_payload\<close> ends with it. The send is attempted once and not retried, and
  the effects before it end with the successful insert, which nothing undoes: the
  record stays persisted.
\<close>

theorem process_payload_send_failure:
  assumes "fst (insert_loop fuel mongo p 0 60 []) = Some (Inr ())"
    and "conns (p_to p) = Some w"
    and "send w (NewMail p) = Some exc"
  shows "process_payload fuel mongo conns send p =
           (Some (Inl exc),
            snd (insert_loop fuel mongo p 0 60 []) @ [SendJson w (NewMail p) (Some exc)])
         \<and> length (filter is_send (snd (process_payload fuel mongo conns send p))) = 1
         \<and> (\<exists>tr'. snd (insert_loop fuel mongo p 0 60 []) = tr' @ [InsertOne p None])"
proof -
  let ?r = "insert_loop fuel mongo p 0 60 []"
  have ns: "\<forall>e \<in> set (snd ?r). \<not> is_send e"
    using insert_loop_no_send[of "[]" fuel mongo p 0 60] by simp
  then have f: "filter is_send (snd ?r) = []" by (simp add: filter_empty_conv)
  have 1: "process_payload fuel mongo conns send p =
      (Some (Inl exc), snd ?r @ [SendJson w (NewMail p) (Some exc)])"
    using assms by (simp add: process_payload_cases Let_def)
  have 2: "\<exists>tr'. snd ?r = tr' @ [InsertOne p None]"
    using assms(1) by (rule insert_loop_success_last)
  show ?thesis using 1 2 f by simp
qed

text \<open>
  Claim C2 as stated fails: with a store that accepts the record and a registered
  websocket whose \<^verbatim>\<open>send_json\<close> raises, \<^verbatim>\<open>process_payload\<close> does not complete but
  ends with the exception of the send.
\<close>

theorem process_payload_send_failure_counterexample:
  "fst (process_payload 1 (\<lambda>k. None) [[97] \<mapsto> 0] (\<lambda>w m. Some (OtherError []))
     \<lparr>p_from = [], p_to = [97], p_subject = [], p_timestamp = 0, p_text = Some []\<rparr>)
   = Some (Inl (OtherError []))"
  by (simp add: process_payload_def)

text \<open>
  The same run with all its effects: one insert, one failed send.
\<close>

theorem process_payload_send_failure_witness:
  "process_payload 1 (\<lambda>k. None) [[97] \<mapsto> 0] (\<lambda>w m. Some (OtherError []))
     \<lparr>p_from = [], p_to = [97], p_subject = [], p_timestamp = 0, p_text = Some []\<rparr>
   = (Some (Inl (OtherError [])),
      [InsertOne \<lparr>p_from = [], p_to = [97], p_subject = [], p_timestamp = 0, p_text = Some []\<rparr> None,
       SendJson 0 (NewMail \<lparr>p_from = [], p_to = [97], p_subject = [], p_timestamp = 0, p_text = Some []\<rparr>)
         (Some (OtherError []))])"
  using process_payload_send_failure[of 1 "\<lambda>k. None"
      "\<lparr>p_from = [], p_to = [97], p_subject = [], p_timestamp = 0, p_text = Some []\<rparr>"
      "[[97] \<mapsto> 0]" 0 "\<lambda>w m. Some (OtherError [])" "OtherError []"]
  by simp

text \<open>
  A unit that inserts at once and notifies: the send is the second effect and the
  insert stands before it.
\<close>

theorem persist_precedes_notify_witness:
  "is_send (snd (process_payload 1 (\<lambda>k. None) [[97] \<mapsto> 0] (\<lambda>w m. None)
     \<lparr>p_from = [], p_to = [97], p_subject = [], p_timestamp = 0, p_text = Some []\<rparr>) ! 1)
   \<and> (\<exists>j<1. is_inserted (snd (process_payload 1 (\<lambda>k. None) [[97] \<mapsto> 0] (\<lambda>w m. None)
     \<lparr>p_from = [], p_to = [97], p_subject = [], p_timestamp = 0, p_text = Some []\<rparr>) ! j))"
  using persist_precedes_notify[of 1 "\<lambda>k. None" "[[97] \<mapsto> 0]" "\<lambda>w m. None"
     "\<lparr>p_from = [], p_to = [97], p_subject = [], p_timestamp = 0, p_text = Some []\<rparr>"]
  by (simp add: notify_after_persist_def process_payload_def)

section \<open>The registry of subscribers\<close>

lemma reject_new:
  "reject (length ws) m (s\<lparr>socks := ws @ [\<lparr>outbox = [], closed = False\<rparr>]\<rparr>) =
     s\<lparr>socks := ws @ [\<lparr>outbox = [ErrorEvent m], closed = True\<rparr>]\<rparr>"
  by (simp add: reject_def close_def send_json_def)

lemma websocket_handler_absent:
  assumes "query req ''email'' = None"
  shows "websocket_handler req s =
           (length (socks s),
            s\<lparr>socks := socks s @
               [\<lparr>outbox = [ErrorEvent (lit ''email should be defined'')], closed = True\<rparr>]\<rparr>)"
  using assms by (simp add: websocket_handler_def Let_def reject_new)

lemma websocket_handler_taken:
  assumes "query req ''email'' = Some email" and "ws_conn s email = Some other"
  shows "websocket_handler req s =
           (length (socks s),
            s\<lparr>socks := socks s @
               [\<lparr>outbox = [ErrorEvent (lit ''subscriber already exists'')], closed = True\<rparr>]\<rparr>)"
  using assms by (simp add: websocket_handler_def Let_def reject_new)

lemma websocket_handler_free:
  assumes "query req ''email'' = Some email" and "ws_conn s email = None"
  shows "websocket_handler req s =
           (length (socks s),
            s\<lparr>ws_conn := (ws_conn s)(email \<mapsto> length (socks s)),
              socks := socks s @ [\<lparr>outbox = [], closed = False\<rparr>],
              loops := (loops s)(length (socks s) \<mapsto> email)\<rparr>)"
  using assms by (simp add: websocket_handler_def Let_def)

text \<open>
  Claim C6, as amended. A subscribe request without the \<^verbatim>\<open>email\<close> parameter is
  rejected with the error \<^verbatim>\<open>email should be defined\<close>, and one whose identity has an
  entry in the registry is rejected with \<^verbatim>\<open>subscriber already exists\<close>; in both cases
  the new websocket is sent that one JSON error event and is then closed, and the
  registry, the suspended handlers and the other websockets are as before. A request
  whose identity is present and has no entry is accepted, the empty identity like any
  other: the entry is installed, and nothing is sent.
\<close>

theorem websocket_handler_subscribe:
  "(query req ''email'' = None \<longrightarrow>
      websocket_handler req s =
        (length (socks s),
         s\<lparr>socks := socks s @
            [\<lparr>outbox = [ErrorEvent (lit ''email should be defined'')], closed = True\<rparr>]\<rparr>)) \<and>
   (\<forall>email other. query req ''email'' = Some email \<and> ws_conn s email = Some other \<longrightarrow>
      websocket_handler req s =
        (length (socks s),
         s\<lparr>socks := socks s @
            [\<lparr>outbox = [ErrorEvent (lit ''subscriber already exists'')], closed = True\<rparr>]\<rparr>)) \<and>
   (\<forall>email. query req ''email'' = Some email \<and> ws_conn s email = None \<longrightarrow>
      websocket_handler req s =
        (length (socks s),
         s\<lparr>ws_conn := (ws_conn s)(email \<mapsto> length (socks s)),
           socks := socks s @ [\<lparr>outbox = [], closed = False\<rparr>],
           loops := (loops s)(length (socks s) \<mapsto> email)\<rparr>))"
  using websocket_handler_absent[of req s] websocket_handler_taken[of req _ s]
    websocket_handler_free[of req _ s]
  by blast

text \<open>
  A request without parameters on the initial server.
\<close>

theorem websocket_handler_subscribe_witness:
  "websocket_handler \<lparr>headers = Map.empty, query = Map.empty\<rparr> init =
     (0, \<lparr>ws_conn = Map.empty,
          socks = [\<lparr>outbox = [ErrorEvent (lit ''email should be defined'')], closed = True\<rparr>],
          loops = Map.empty\<rparr>)"
  using websocket_handler_subscribe[of "\<lparr>headers = Map.empty, query = Map.empty\<rparr>" init]
  by (simp add: init_def)

text \<open>
  Claim C6 as stated fails for the identity that is present and empty: the source
  tests only whether the parameter is in the query, so the request is accepted and
  the empty identity is registered.
\<close>

theorem websocket_handler_empty_identity_counterexample:
  "websocket_handler \<lparr>headers = Map.empty, query = [''email'' \<mapsto> []]\<rparr> init =
     (0, \<lparr>ws_conn = [[] \<mapsto> 0], socks = [\<lparr>outbox = [], closed = False\<rparr>], loops = [0 \<mapsto> []]\<rparr>)"
  by (simp add: websocket_handler_def init_def)

lemma inv_init: "registry_inv init"
  by (simp add: registry_inv_def init_def)

lemma registry_invI:
  assumes "\<And>e w. ws_conn s e = Some w \<longleftrightarrow> loops s w = Some e"
    and "\<And>w e. loops s w = Some e \<Longrightarrow> w < length (socks s)"
  shows "registry_inv s"
  using assms unfolding registry_inv_def by blast

lemma registry_invD1: "registry_inv s \<Longrightarrow> ws_conn s e = Some w \<longleftrightarrow> loops s w = Some e"
  unfolding registry_inv_def by blast

lemma registry_invD2: "registry_inv s \<Longrightarrow> loops s w = Some e \<Longrightarrow> w < length (socks s)"
  unfolding registry_inv_def by blast

lemma inv_subscribe:
  assumes inv: "registry_inv s"
  shows "registry_inv (snd (websocket_handler req s))"
proof (cases "query req ''email''")
  case None
  show ?thesis
    unfolding websocket_handler_absent[OF None] snd_conv
  proof (rule registry_invI)
    fix e w
    show "ws_conn (s\<lparr>socks := socks s @
               [\<lparr>outbox = [ErrorEvent (lit ''email should be defined'')], closed = True\<rparr>]\<rparr>) e = Some w
       \<longleftrightarrow> loops (s\<lparr>socks := socks s @
               [\<lparr>outbox = [ErrorEvent (lit ''email should be defined'')], closed = True\<rparr>]\<rparr>) w = Some e"
      using registry_invD1[OF inv, of e w] by simp
  next
    fix w e
    assume "loops (s\<lparr>socks := socks s @
               [\<lparr>outbox = [ErrorEvent (lit ''email should be defined'')], closed = True\<rparr>]\<rparr>) w = Some e"
    then have "w < length (socks s)" using registry_invD2[OF inv, of w e] by simp
    then show "w < length (socks (s\<lparr>socks := socks s @
               [\<lparr>outbox = [ErrorEvent (lit ''email should be defined'')], closed = True\<rparr>]\<rparr>))"
      by simp
  qed
next
  case (Some email)
  note q = Some
  show ?thesis
  proof (cases "ws_conn s email")
    case None
    let ?n = "length (socks s)"
    have fresh: "loops s ?n \<noteq> Some e" for e
      using registry_invD2[OF inv, of ?n e] by auto
    have no: "loops s w \<noteq> Some email" for w
      using registry_invD1[OF inv, of email w] None by simp
    have no': "ws_conn s e \<noteq> Some ?n" for e
      using registry_invD1[OF inv, of e ?n] fresh[of e] by simp
    show ?thesis
      unfolding websocket_handler_free[OF q None] snd_conv
    proof (rule registry_invI)
      fix e w
      have "((ws_conn s)(email \<mapsto> ?n)) e = Some w \<longleftrightarrow> ((loops s)(?n \<mapsto> email)) w = Some e"
      proof (cases "e = email")
        case True
        then show ?thesis using no[of w] by auto
      next
        case False
        then show ?thesis
          using registry_invD1[OF inv, of e w] no'[of e] by auto
      qed
      then show "ws_conn (s\<lparr>ws_conn := (ws_conn s)(email \<mapsto> ?n),
              socks := socks s @ [\<lparr>outbox = [], closed = False\<rparr>],
              loops := (loops s)(?n \<mapsto> email)\<rparr>) e = Some w
          \<longleftrightarrow> loops (s\<lparr>ws_conn := (ws_conn s)(email \<mapsto> ?n),
              socks := socks s @ [\<lparr>outbox = [], closed = False\<rparr>],
              loops := (loops s)(?n \<mapsto> email)\<rparr>) w = Some e"
        by simp
    next
      fix w e
      assume "loops (s\<lparr>ws_conn := (ws_conn s)(email \<mapsto> ?n),
              socks := socks s @ [\<lparr>outbox = [], closed = False\<rparr>],
              loops := (loops s)(?n \<mapsto> email)\<rparr>) w = Some e"
      then have "w = ?n \<or> loops s w = Some e" by (simp split: if_splits)
      then have "w \<le> ?n" using registry_invD2[OF inv, of w e] by auto
      then show "w < length (socks (s\<lparr>ws_conn := (ws_conn s)(email \<mapsto> ?n),
              socks := socks s @ [\<lparr>outbox = [], closed = False\<rparr>],
              loops := (loops s)(?n \<mapsto> email)\<rparr>))"
        by simp
    qed
  next
    case (Some other)
    show ?thesis
      unfolding websocket_handler_taken[OF q Some] snd_conv
    proof (rule registry_invI)
      fix e w
      show "ws_conn (s\<lparr>socks := socks s @
               [\<lparr>outbox = [ErrorEvent (lit ''subscriber already exists'')], closed = True\<rparr>]\<rparr>) e = Some w
         \<longleftrightarrow> loops (s\<lparr>socks := socks s @
               [\<lparr>outbox = [ErrorEvent (lit ''subscriber already exists'')], closed = True\<rparr>]\<rparr>) w = Some e"
        using registry_invD1[OF inv, of e w] by simp
    next
      fix w e
      assume "loops (s\<lparr>socks := socks s @
               [\<lparr>outbox = [ErrorEvent (lit ''subscriber already exists'')], closed = True\<rparr>]\<rparr>) w = Some e"
      then have "w < length (socks s)" using registry_invD2[OF inv, of w e] by simp
      then show "w < length (socks (s\<lparr>socks := socks s @
               [\<lparr>outbox = [ErrorEvent (lit ''subscriber already exists'')], closed = True\<rparr>]\<rparr>))"
        by simp
    qed
  qed
qed

lemma inv_receive:
  assumes inv: "registry_inv s"
  shows "registry_inv (ws_receive w c s)"
proof (cases "loops s w = None \<or> \<not> c")
  case True
  then have "ws_receive w c s = s" by (auto simp: ws_receive_def split: option.splits)
  with inv show ?thesis by simp
next
  case False
  then have r: "ws_receive w c s = s\<lparr>socks := close w (socks s)\<rparr>"
    by (auto simp: ws_receive_def split: option.splits)
  show ?thesis
    unfolding r
  proof (rule registry_invI)
    fix e v
    show "ws_conn (s\<lparr>socks := close w (socks s)\<rparr>) e = Some v
        \<longleftrightarrow> loops (s\<lparr>socks := close w (socks s)\<rparr>) v = Some e"
      using registry_invD1[OF inv, of e v] by simp
  next
    fix v e
    assume "loops (s\<lparr>socks := close w (socks s)\<rparr>) v = Some e"
    then have "v < length (socks s)" using registry_invD2[OF inv, of v e] by simp
    then show "v < length (socks (s\<lparr>socks := close w (socks s)\<rparr>))"
      by (simp add: close_def)
  qed
qed

lemma ws_finally_in_loop:
  assumes "registry_inv s" and "loops s w = Some email"
  shows "ws_finally w s =
           (None, s\<lparr>ws_conn := (ws_conn s)(email := None), loops := (loops s)(w := None)\<rparr>)"
proof -
  have "ws_conn s email = Some w" using registry_invD1[OF assms(1), of email w] assms(2) by simp
  with assms(2) show ?thesis by (simp add: ws_finally_def)
qed

lemma inv_finally:
  assumes inv: "registry_inv s"
  shows "registry_inv (snd (ws_finally w s))"
proof (cases "loops s w")
  case None
  with inv show ?thesis by (simp add: ws_finally_def)
next
  case (Some email)
  have r: "ws_conn s email = Some w" using registry_invD1[OF inv, of email w] Some by simp
  show ?thesis
    unfolding ws_finally_in_loop[OF inv Some] snd_conv
  proof (rule registry_invI)
    fix e v
    have "((ws_conn s)(email := None)) e = Some v \<longleftrightarrow> ((loops s)(w := None)) v = Some e"
    proof (cases "e = email")
      case True
      have "loops s v = Some email \<Longrightarrow> v = w"
        using registry_invD1[OF inv, of email v] r by simp
      with True show ?thesis by auto
    next
      case False
      have "ws_conn s e \<noteq> Some w"
        using registry_invD1[OF inv, of e w] Some False by simp
      with False show ?thesis using registry_invD1[OF inv, of e v] by auto
    qed
    then show "ws_conn (s\<lparr>ws_conn := (ws_conn s)(email := None), loops := (loops s)(w := None)\<rparr>) e = Some v
        \<longleftrightarrow> loops (s\<lparr>ws_conn := (ws_conn s)(email := None), loops := (loops s)(w := None)\<rparr>) v = Some e"
      by simp
  next
    fix v e
    assume "loops (s\<lparr>ws_conn := (ws_conn s)(email := None), loops := (loops s)(w := None)\<rparr>) v = Some e"
    then have "loops s v = Some e" by (simp split: if_splits)
    then show "v < length (socks (s\<lparr>ws_conn := (ws_conn s)(email := None), loops := (loops s)(w := None)\<rparr>))"
      using registry_invD2[OF inv, of v e] by simp
  qed
qed

lemma inv_step: "registry_inv s \<Longrightarrow> registry_inv (step s a)"
  by (cases a) (simp_all add: inv_subscribe inv_receive inv_finally)

lemma inv_foldl: "registry_inv s \<Longrightarrow> registry_inv (foldl step s acts)"
  by (induction acts arbitrary: s) (simp_all add: inv_step)

lemma inv_run: "registry_inv (run acts)"
  unfolding run_def by (rule inv_foldl) (rule inv_init)

text \<open>
  Claim C7. In every state that the server reaches by subscribe requests, received
  messages and ends of connections, in any order, the registry maps an identity to a
  websocket exactly when the handler of that websocket is in its loop for that
  identity; so at most one connection is live for an identity. A further subscription
  for a registered identity leaves the registry and the handlers as they are, and
  when the loop of a connection ends, for whatever reason, its \<^verbatim>\<open>finally\<close> removes
  the entry of its own identity, without a KeyError, and no other entry.
\<close>

theorem registry_at_most_one:
  "(\<forall>e w. ws_conn (run acts) e = Some w \<longleftrightarrow> loops (run acts) w = Some e) \<and>
   (\<forall>w1 w2 e. loops (run acts) w1 = Some e \<and> loops (run acts) w2 = Some e \<longrightarrow> w1 = w2) \<and>
   (\<forall>req e w. query req ''email'' = Some e \<and> ws_conn (run acts) e = Some w \<longrightarrow>
      ws_conn (step (run acts) (Subscribe req)) = ws_conn (run acts) \<and>
      loops (step (run acts) (Subscribe req)) = loops (run acts)) \<and>
   (\<forall>w e. loops (run acts) w = Some e \<longrightarrow>
      fst (ws_finally w (run acts)) = None \<and>
      ws_conn (step (run acts) (Leave w)) = (ws_conn (run acts))(e := None) \<and>
      loops (step (run acts) (Leave w)) = (loops (run acts))(w := None))"
proof -
  let ?s = "run acts"
  have inv: "registry_inv ?s" by (rule inv_run)
  have 1: "\<forall>e w. ws_conn ?s e = Some w \<longleftrightarrow> loops ?s w = Some e"
    using registry_invD1[OF inv] by blast
  have 2: "\<forall>w1 w2 e. loops ?s w1 = Some e \<and> loops ?s w2 = Some e \<longrightarrow> w1 = w2"
  proof (intro allI impI)
    fix w1 w2 e assume "loops ?s w1 = Some e \<and> loops ?s w2 = Some e"
    then have "ws_conn ?s e = Some w1" "ws_conn ?s e = Some w2" using 1 by simp_all
    then show "w1 = w2" by simp
  qed
  have 3: "\<forall>req e w. query req ''email'' = Some e \<and> ws_conn ?s e = Some w \<longrightarrow>
      ws_conn (step ?s (Subscribe req)) = ws_conn ?s \<and>
      loops (step ?s (Subscribe req)) = loops ?s"
  proof (intro allI impI)
    fix req :: request and e w assume a: "query req ''email'' = Some e \<and> ws_conn ?s e = Some w"
    then have "websocket_handler req ?s =
           (length (socks ?s),
            ?s\<lparr>socks := socks ?s @
               [\<lparr>outbox = [ErrorEvent (lit ''subscriber already exists'')], closed = True\<rparr>]\<rparr>)"
      using websocket_handler_taken[of req e ?s w] by simp
    then show "ws_conn (step ?s (Subscribe req)) = ws_conn ?s \<and>
      loops (step ?s (Subscribe req)) = loops ?s"
      by simp
  qed
  have 4: "\<forall>w e. loops ?s w = Some e \<longrightarrow>
      fst (ws_finally w ?s) = None \<and>
      ws_conn (step ?s (Leave w)) = (ws_conn ?s)(e := None) \<and>
      loops (step ?s (Leave w)) = (loops ?s)(w := None)"
  proof (intro allI impI)
    fix w e assume l: "loops ?s w = Some e"
    show "fst (ws_finally w ?s) = None \<and>
      ws_conn (step ?s (Leave w)) = (ws_conn ?s)(e := None) \<and>
      loops (step ?s (Leave w)) = (loops ?s)(w := None)"
      using ws_finally_in_loop[OF inv l] by simp
  qed
  from 1 2 3 4 show ?thesis by blast
qed

lemma run_one_subscriber:
  "run [Subscribe \<lparr>headers = Map.empty, query = [''email'' \<mapsto> [97]]\<rparr>] =
   \<lparr>ws_conn = [[97] \<mapsto> 0], socks = [\<lparr>outbox = [], closed = False\<rparr>], loops = [0 \<mapsto> [97]]\<rparr>"
  by (simp add: run_def init_def websocket_handler_def)

text \<open>
  One subscriber for \<^verbatim>\<open>a\<close>: a second request leaves the entry, and the end of the
  connection removes it.
\<close>

theorem registry_at_most_one_witness:
  "ws_conn (run [Subscribe \<lparr>headers = Map.empty, query = [''email'' \<mapsto> [97]]\<rparr>]) [97] = Some 0 \<and>
   ws_conn (step (run [Subscribe \<lparr>headers = Map.empty, query = [''email'' \<mapsto> [97]]\<rparr>])
              (Subscribe \<lparr>headers = Map.empty, query = [''email'' \<mapsto> [97]]\<rparr>)) [97] = Some 0 \<and>
   ws_conn (step (run [Subscribe \<lparr>headers = Map.empty, query = [''email'' \<mapsto> [97]]\<rparr>]) (Leave 0)) [97] = None"
proof -
  let ?rq = "\<lparr>headers = Map.empty, query = [''email'' \<mapsto> [97::nat]]\<rparr>"
  let ?s = "run [Subscribe ?rq]"
  have r: "ws_conn ?s [97] = Some 0" by (simp add: run_one_subscriber)
  have q: "query ?rq ''email'' = Some [97]" by simp
  have l: "loops ?s 0 = Some [97]" by (simp add: run_one_subscriber)
  note t = registry_at_most_one[of "[Subscribe ?rq]"]
  from t q r have "ws_conn (step ?s (Subscribe ?rq)) = ws_conn ?s" by blast
  moreover from t l have "ws_conn (step ?s (Leave 0)) = (ws_conn ?s)([97] := None)" by blast
  ultimately show ?thesis using r by simp
qed

end
